theory Spec2Isabelle
  imports Complex_Main
begin

section \<open>Package polyfit: incremental least-squares polynomial fitting\<close>

text \<open>
  The development embeds \<^verbatim>\<open>polyfit/polyfit.go\<close>.

  \<^bold>\<open>Scalars.\<close> The source computes in \<^verbatim>\<open>float64\<close>. The operations that only
  move, add and multiply numbers are defined for every scalar type \<open>'a\<close> that carries
  the operations used, so what is proved about them at that generality does not depend
  on any law of arithmetic. Theorems that do need laws (powers, sums of several points,
  solutions of linear systems) are stated for exact arithmetic (a semiring or a
  field), which \<^verbatim>\<open>float64\<close> follows only up to rounding. Stored values are
  finite; rounding, overflow to infinity and NaN arguments are outside the model.
  A quotient is the one place where finite operands give a non-finite result without
  overflow (division by zero gives an infinity or NaN in Go and does not panic), so
  quotients have the type \<open>'a f64\<close>.

  \<^bold>\<open>Integers.\<close> \<^verbatim>\<open>int\<close> fields and locals are modelled as \<open>int\<close>; loop counters
  and slice indices, which are non-negative wherever they are used, as \<open>nat\<close>. The
  64-bit wrap-around of \<^verbatim>\<open>N++\<close> and of \<^verbatim>\<open>m*m\<close> is out of reach of any
  slice that fits in memory and is not modelled.

  \<^bold>\<open>Memory.\<close> \<^verbatim>\<open>*Fitting\<close> is a pointer and \<^verbatim>\<open>[]float64\<close> a reference to a
  backing array, and the methods mutate both in place. The store keeps the structs and
  the backing arrays in two lists; a pointer or slice is an index, allocation appends.
  An index outside the list is the nil pointer, respectively the nil slice (a fitter
  built by the package never holds one; see \<open>fit_ok\<close> below). Every slice of the
  package spans its whole backing array, so length and capacity are the length of the
  array.
\<close>

subsection \<open>Data model\<close>

datatype error =
    NilDereference
  | IndexOutOfRange
  | MakeSliceLenOutOfRange
  | DifferentDegree int int
  | SolverPanic

datatype 'a f64 = Finite 'a | NonFinite

record Fitting =
  N :: int
  Degree :: int
  xtx :: nat
  xty :: nat

record 'a heap =
  fits :: "Fitting list"
  arrs :: "'a list list"

definition empty_heap :: "'a heap" where
  "empty_heap = \<lparr>fits = [], arrs = []\<rparr>"

definition fit_at :: "'a heap \<Rightarrow> nat \<Rightarrow> Fitting option" where
  "fit_at h f = (if f < length (fits h) then Some (fits h ! f) else None)"

definition slice_at :: "'a heap \<Rightarrow> nat \<Rightarrow> 'a list" where
  "slice_at h a = (if a < length (arrs h) then arrs h ! a else [])"

definition load :: "'a heap \<Rightarrow> nat \<Rightarrow> nat \<Rightarrow> 'a option" where
  "load h a k = (if k < length (slice_at h a) then Some (slice_at h a ! k) else None)"

definition store :: "'a heap \<Rightarrow> nat \<Rightarrow> nat \<Rightarrow> 'a \<Rightarrow> 'a heap" where
  "store h a k v = h\<lparr>arrs := (arrs h)[a := (arrs h ! a)[k := v]]\<rparr>"

definition alloc :: "'a heap \<Rightarrow> 'a list \<Rightarrow> 'a heap \<times> nat" where
  "alloc h xs = (h\<lparr>arrs := arrs h @ [xs]\<rparr>, length (arrs h))"

definition new_struct :: "'a heap \<Rightarrow> Fitting \<Rightarrow> 'a heap \<times> nat" where
  "new_struct h F = (h\<lparr>fits := fits h @ [F]\<rparr>, length (fits h))"

definition set_N :: "'a heap \<Rightarrow> nat \<Rightarrow> int \<Rightarrow> 'a heap" where
  "set_N h f n = h\<lparr>fits := (fits h)[f := (fits h ! f)\<lparr>N := n\<rparr>]\<rparr>"

definition set_slice :: "'a heap \<Rightarrow> nat \<Rightarrow> 'a list \<Rightarrow> 'a heap" where
  "set_slice h a xs = h\<lparr>arrs := (arrs h)[a := xs]\<rparr>"

text \<open>
  What a caller can observe of the fitter behind a pointer: its two integer fields and
  the contents of its two slices.
\<close>

record 'a fit_view =
  vN :: int
  vDegree :: int
  vxtx :: "'a list"
  vxty :: "'a list"

definition view :: "'a heap \<Rightarrow> nat \<Rightarrow> 'a fit_view" where
  "view h f = \<lparr>vN = N (fits h ! f), vDegree = Degree (fits h ! f),
               vxtx = slice_at h (xtx (fits h ! f)), vxty = slice_at h (xty (fits h ! f))\<rparr>"

subsection \<open>Statements that may panic\<close>

text \<open>
  A statement maps the store to the store it leaves behind and the panic it raised, if
  any. \<open>for_each\<close> is the \<^verbatim>\<open>for\<close> loop over the given counter values: it stops at
  the first panic.
\<close>

fun for_each :: "'i list \<Rightarrow> ('i \<Rightarrow> 's \<Rightarrow> 's \<times> error option) \<Rightarrow> 's \<Rightarrow> 's \<times> error option" where
  "for_each [] body s = (s, None)"
| "for_each (i # is) body s =
     (case body i s of
        (s', None) \<Rightarrow> for_each is body s'
      | (s', Some e) \<Rightarrow> (s', Some e))"

text \<open>\<^verbatim>\<open>a[k] += v\<close> and \<^verbatim>\<open>a[k] = v\<close> on the slice \<open>a\<close>, with Go's bounds check.\<close>

definition add_to :: "nat \<Rightarrow> nat \<Rightarrow> 'a::plus \<Rightarrow> 'a heap \<Rightarrow> 'a heap \<times> error option" where
  "add_to a k v h =
     (case load h a k of
        None \<Rightarrow> (h, Some IndexOutOfRange)
      | Some old \<Rightarrow> (store h a k (old + v), None))"

definition assign :: "nat \<Rightarrow> nat \<Rightarrow> 'a \<Rightarrow> 'a heap \<Rightarrow> 'a heap \<times> error option" where
  "assign a k v h =
     (case load h a k of
        None \<Rightarrow> (h, Some IndexOutOfRange)
      | Some old \<Rightarrow> (store h a k v, None))"

text \<open>\<^verbatim>\<open>a[k] += b[k]\<close>: both index expressions are checked before the write.\<close>

definition add_from :: "nat \<Rightarrow> nat \<Rightarrow> nat \<Rightarrow> 'a::plus heap \<Rightarrow> 'a heap \<times> error option" where
  "add_from a b k h =
     (case load h b k of
        None \<Rightarrow> (h, Some IndexOutOfRange)
      | Some v \<Rightarrow> add_to a k v h)"

subsection \<open>Add\<close>

text \<open>
  The local slice \<^verbatim>\<open>xpows\<close> of \<^verbatim>\<open>Add\<close>: \<^verbatim>\<open>xpows[i] = v; v *= x\<close>, starting
  from \<^verbatim>\<open>v = 1\<close>. It never escapes, so it is a list value.
\<close>

fun xpows_from :: "nat \<Rightarrow> 'a::times \<Rightarrow> 'a \<Rightarrow> 'a list" where
  "xpows_from 0 v x = []"
| "xpows_from (Suc n) v x = v # xpows_from n (v * x) x"

definition xpows :: "nat \<Rightarrow> 'a::{one,times} \<Rightarrow> 'a list" where
  "xpows m x = xpows_from m 1 x"

definition Add :: "'a::{one,plus,times} heap \<Rightarrow> nat \<Rightarrow> 'a \<Rightarrow> 'a \<Rightarrow> 'a heap \<times> error option" where
  "Add h f x y =
     (case fit_at h f of
        None \<Rightarrow> (h, Some NilDereference)
      | Some F \<Rightarrow>
          let m = Degree F + 1 in
          if m < 0 then (h, Some MakeSliceLenOutOfRange)
          else
            let xp = xpows (nat m) x in
            (case for_each [0..<nat m] (\<lambda>i.
                    for_each [0..<nat m] (\<lambda>j.
                      add_to (xtx F) (i * nat m + j) (xp ! i * xp ! j))) h of
               (h1, Some e) \<Rightarrow> (h1, Some e)
             | (h1, None) \<Rightarrow>
                 (case for_each [0..<nat m] (\<lambda>i. add_to (xty F) i (xp ! i * y)) h1 of
                    (h2, Some e) \<Rightarrow> (h2, Some e)
                  | (h2, None) \<Rightarrow> (set_N h2 f (N F + 1), None))))"

subsection \<open>NewFitting\<close>

text \<open>
  The composite literal allocates the two slices and the struct;
  \<^verbatim>\<open>make([]float64, m)\<close> panics when \<open>m\<close> is negative. The two zeroing loops
  follow, then one \<^verbatim>\<open>f.Add(xs[i], ys[i])\<close> for each \<open>i < len(xs)\<close>; \<^verbatim>\<open>ys[i]\<close>
  is bounds-checked before the call.
\<close>

definition NewFitting ::
  "'a::{zero,one,plus,times} heap \<Rightarrow> 'a list \<Rightarrow> 'a list \<Rightarrow> int \<Rightarrow> 'a heap \<times> (error + nat)" where
  "NewFitting h xs ys degree =
     (let n = length xs; m = degree + 1 in
      if m < 0 then (h, Inl MakeSliceLenOutOfRange)
      else
        let (h1, a1) = alloc h (replicate (nat (m * m)) 0);
            (h2, a2) = alloc h1 (replicate (nat m) 0);
            (h3, f) = new_struct h2 \<lparr>N = 0, Degree = degree, xtx = a1, xty = a2\<rparr>
        in
        (case for_each [0..<nat (m * m)] (\<lambda>i. assign a1 i 0) h3 of
           (h4, Some e) \<Rightarrow> (h4, Inl e)
         | (h4, None) \<Rightarrow>
             (case for_each [0..<nat m] (\<lambda>i. assign a2 i 0) h4 of
                (h5, Some e) \<Rightarrow> (h5, Inl e)
              | (h5, None) \<Rightarrow>
                  (case for_each [0..<n] (\<lambda>i s.
                          if i < length ys then Add s f (xs ! i) (ys ! i)
                          else (s, Some IndexOutOfRange)) h5 of
                     (h6, Some e) \<Rightarrow> (h6, Inl e)
                   | (h6, None) \<Rightarrow> (h6, Inr f)))))"

subsection \<open>Copy\<close>

text \<open>
  \<^verbatim>\<open>make([]float64, 0, len(f.xtx))\<close> allocates a backing array of that capacity and
  length 0; \<^verbatim>\<open>append\<close> then fills it in place, the capacity being exactly what is
  needed.
\<close>

definition Copy :: "'a heap \<Rightarrow> nat \<Rightarrow> 'a heap \<times> (error + nat)" where
  "Copy h f =
     (case fit_at h f of
        None \<Rightarrow> (h, Inl NilDereference)
      | Some F \<Rightarrow>
          let (h1, a1) = alloc h [];
              (h2, a2) = alloc h1 [];
              (h3, b) = new_struct h2 \<lparr>N = N F, Degree = Degree F, xtx = a1, xty = a2\<rparr>;
              h4 = set_slice h3 a1 (slice_at h3 a1 @ slice_at h3 (xtx F));
              h5 = set_slice h4 a2 (slice_at h4 a2 @ slice_at h4 (xty F))
          in (h5, Inr b))"

subsection \<open>Merge\<close>

definition Merge :: "'a::plus heap \<Rightarrow> nat \<Rightarrow> nat \<Rightarrow> 'a heap \<times> error option" where
  "Merge h f b =
     (case fit_at h f of
        None \<Rightarrow> (h, Some NilDereference)
      | Some F \<Rightarrow>
     (case fit_at h b of
        None \<Rightarrow> (h, Some NilDereference)
      | Some B \<Rightarrow>
          if Degree F \<noteq> Degree B then (h, Some (DifferentDegree (Degree F) (Degree B)))
          else
            let h0 = set_N h f (N F + N B);
                m = nat (Degree F + 1)
            in for_each [0..<m] (\<lambda>i s.
                 (case add_from (xty F) (xty B) i s of
                    (s', Some e) \<Rightarrow> (s', Some e)
                  | (s', None) \<Rightarrow>
                      for_each [0..<m] (\<lambda>j. add_from (xtx F) (xtx B) (i * m + j)) s')) h0))"

subsection \<open>Solve\<close>

text \<open>
  Go's \<^verbatim>\<open>a / b\<close> on \<^verbatim>\<open>float64\<close>: a zero divisor gives an infinity or NaN.
\<close>

definition fdiv :: "'a::{zero,inverse} \<Rightarrow> 'a \<Rightarrow> 'a f64" where
  "fdiv a b = (if b = 0 then NonFinite else Finite (a / b))"

definition determinant2 :: "'a::{minus,times} list \<Rightarrow> error + 'a" where
  "determinant2 v =
     (if length v < 4 then Inl IndexOutOfRange
      else let a = v ! 0; b = v ! 1; c = v ! 2; d = v ! 3 in Inr (a * d - b * c))"

definition determinant3 :: "'a::{plus,minus,times} list \<Rightarrow> error + 'a" where
  "determinant3 v =
     (if length v < 9 then Inl IndexOutOfRange
      else
        let a = v ! 0; b = v ! 1; c = v ! 2; d = v ! 3; e = v ! 4; f = v ! 5;
            g = v ! 6; h = v ! 7; i = v ! 8
        in Inr (a * e * i + b * f * g + c * d * h - c * e * g - b * d * i - a * f * h))"

definition solve1 :: "'a::{zero,inverse} list \<Rightarrow> 'a list \<Rightarrow> 'a f64 list \<Rightarrow> error + 'a f64 list" where
  "solve1 v y into =
     (if length y < 1 \<or> length v < 1 \<or> length into < 1 then Inl IndexOutOfRange
      else Inr (into[0 := fdiv (y ! 0) (v ! 0)]))"

definition solve2 ::
  "'a::{zero,minus,times,inverse} list \<Rightarrow> 'a list \<Rightarrow> 'a f64 list \<Rightarrow> error + 'a f64 list" where
  "solve2 v y into =
     (if length v < 4 then Inl IndexOutOfRange
      else
        let a = v ! 0; b = v ! 1; c = v ! 2; d = v ! 3 in
        (case determinant2 v of
           Inl e \<Rightarrow> Inl e
         | Inr dd \<Rightarrow>
             if length y < 2 then Inl IndexOutOfRange
             else
               let dx1 = y ! 0 * d - b * y ! 1;
                   dx2 = a * y ! 1 - y ! 0 * c
               in
               if length into < 2 then Inl IndexOutOfRange
               else Inr (into[0 := fdiv dx1 dd, 1 := fdiv dx2 dd])))"

definition solve3 ::
  "'a::{zero,plus,minus,times,inverse} list \<Rightarrow> 'a list \<Rightarrow> 'a f64 list \<Rightarrow> error + 'a f64 list" where
  "solve3 v y into =
     (if length v < 9 then Inl IndexOutOfRange
      else
        let a = v ! 0; b = v ! 1; c = v ! 2; d = v ! 3; e = v ! 4; f = v ! 5;
            g = v ! 6; h = v ! 7; i = v ! 8
        in
        (case determinant3 v of
           Inl er \<Rightarrow> Inl er
         | Inr dd \<Rightarrow>
             if length y < 3 then Inl IndexOutOfRange
             else
               let dx1 = y ! 0 * e * i + b * f * y ! 2 + c * y ! 1 * h
                         - c * e * y ! 2 - b * y ! 1 * i - y ! 0 * f * h;
                   dx2 = a * y ! 1 * i + y ! 0 * f * g + c * d * y ! 2
                         - c * y ! 1 * g - y ! 0 * d * i - a * f * y ! 2;
                   dx3 = a * e * y ! 2 + b * y ! 1 * g + y ! 0 * d * h
                         - y ! 0 * e * g - b * d * y ! 2 - a * y ! 1 * h
               in
               if length into < 3 then Inl IndexOutOfRange
               else Inr (into[0 := fdiv dx1 dd, 1 := fdiv dx2 dd, 2 := fdiv dx3 dd])))"

text \<open>
  The general path hands the system to \<^verbatim>\<open>gonum\<close>, a library outside this
  repository. Its solver is a parameter \<open>dense_solve\<close> of the model: given the rows of
  the coefficient matrix and the right-hand side it either panics or leaves a column
  \<open>\<beta>\<close> of values together with the error it returned (\<open>True\<close>: an error
  such as a large condition number). What the source itself fixes is which system is
  handed over and what is done with the answer:
  \<^item> \<^verbatim>\<open>mat.NewDense(m, m, f.xtx)\<close> views \<^verbatim>\<open>f.xtx\<close> as \<open>m\<close> rows of \<open>m\<close>
    entries and \<^verbatim>\<open>coef.Slice(0, k, 0, k)\<close> is its leading \<open>k \<times> k\<close> block
    (\<open>leading\<close>); a backing slice of the wrong length or a negative bound makes the
    library panic;
  \<^item> \<^verbatim>\<open>beta.At(i, 0)\<close> panics when \<open>\<beta>\<close> has no row \<open>i\<close>.
\<close>

datatype 'a lin_out = LinPanic | LinResult "'a f64 list" bool

definition leading :: "nat \<Rightarrow> nat \<Rightarrow> 'a list \<Rightarrow> 'a list list" where
  "leading k m v = map (\<lambda>i. map (\<lambda>j. v ! (i * m + j)) [0..<k]) [0..<k]"

definition Solve ::
  "('a list list \<Rightarrow> 'a list \<Rightarrow> 'a lin_out) \<Rightarrow>
   'a::{zero,plus,minus,times,inverse} heap \<Rightarrow> nat \<Rightarrow> error + 'a f64 list" where
  "Solve dense_solve h f =
     (case fit_at h f of
        None \<Rightarrow> Inl NilDereference
      | Some F \<Rightarrow>
          let m = Degree F + 1; v = slice_at h (xtx F); y = slice_at h (xty F) in
          if m \<le> N F \<and> m < 0 then Inl MakeSliceLenOutOfRange
          else if m \<le> N F \<and> m = 1 then solve1 v y (replicate (nat m) (Finite 0))
          else if m \<le> N F \<and> m = 2 then solve2 v y (replicate (nat m) (Finite 0))
          else if m \<le> N F \<and> m = 3 then solve3 v y (replicate (nat m) (Finite 0))
          else if 0 \<le> m \<and> length v = nat (m * m) \<and> length y = nat m then
            let k = (if Degree F + 1 > N F then N F else m) in
            if k < 0 then Inl SolverPanic
            else
              (case dense_solve (leading (nat k) (nat m) v) (take (nat k) y) of
                 LinPanic \<Rightarrow> Inl SolverPanic
               | LinResult beta err \<Rightarrow>
                   if length beta < nat k then Inl SolverPanic
                   else
                     let rst = replicate (nat (Degree F + 1)) (Finite 0);
                         rst1 = fold (\<lambda>i r. r[i := beta ! i]) [0..<nat k] rst;
                         rst2 = fold (\<lambda>i r. r[i := Finite 0]) [nat k..<nat (Degree F + 1)] rst1
                     in Inr rst2)
          else Inl SolverPanic)"

subsection \<open>Well-formed stores\<close>

text \<open>
  The fields \<^verbatim>\<open>xtx\<close> and \<^verbatim>\<open>xty\<close> are unexported, so a fitter is whatever
  \<^verbatim>\<open>NewFitting\<close>, \<^verbatim>\<open>Copy\<close>, \<^verbatim>\<open>Add\<close> and \<^verbatim>\<open>Merge\<close> make of it. \<open>fit_ok\<close>
  is the shape they keep: a non-negative degree and count, and two distinct slices of
  \<open>(d+1)\<^sup>2\<close> and \<open>d+1\<close> entries. \<open>heap_ok\<close> adds that no two fitters share a
  backing array.
\<close>

definition fit_ok :: "'a heap \<Rightarrow> nat \<Rightarrow> bool" where
  "fit_ok h f \<longleftrightarrow>
     f < length (fits h) \<and>
     (let F = fits h ! f; m = nat (Degree F + 1) in
        0 \<le> N F \<and> 0 \<le> Degree F \<and>
        xtx F < length (arrs h) \<and> xty F < length (arrs h) \<and> xtx F \<noteq> xty F \<and>
        length (arrs h ! xtx F) = m * m \<and> length (arrs h ! xty F) = m)"

definition heap_ok :: "'a heap \<Rightarrow> bool" where
  "heap_ok h \<longleftrightarrow>
     list_all (fit_ok h) [0..<length (fits h)] \<and>
     distinct (concat (map (\<lambda>F. [xtx F, xty F]) (fits h)))"




subsection \<open>Vocabulary of the specification\<close>

text \<open>
  The store right after the allocations of \<^verbatim>\<open>NewFitting\<close> (an empty fitter of
  degree \<open>d\<close> behind the next free pointer), \<^verbatim>\<open>f.Add\<close> called on a list of points in
  order, the vector \<open>[1, x, x\<^sup>2, \<dots>, x\<^sup>d]\<close>, the outer product of two vectors laid out row by
  row (the layout of \<^verbatim>\<open>xtx\<close>), and the observable state of a fitter of degree \<open>d\<close>
  into which exactly the points \<open>ps\<close> were added, in order, by \<^verbatim>\<open>NewFitting\<close>.
\<close>

definition fresh :: "'a::zero heap \<Rightarrow> int \<Rightarrow> 'a heap" where
  "fresh h d =
     \<lparr>fits = fits h @ [\<lparr>N = 0, Degree = d, xtx = length (arrs h), xty = Suc (length (arrs h))\<rparr>],
      arrs = arrs h @ [replicate (nat (d + 1) * nat (d + 1)) 0, replicate (nat (d + 1)) 0]\<rparr>"

definition add_points ::
  "'a::{one,plus,times} heap \<Rightarrow> nat \<Rightarrow> ('a \<times> 'a) list \<Rightarrow> 'a heap \<times> error option" where
  "add_points h f ps = for_each ps (\<lambda>(x, y) s. Add s f x y) h"

definition powers :: "nat \<Rightarrow> 'a::power \<Rightarrow> 'a list" where
  "powers d x = map (\<lambda>i. x ^ i) [0..<Suc d]"

definition outer_product :: "'a::times list \<Rightarrow> 'a list \<Rightarrow> 'a list" where
  "outer_product u v = concat (map (\<lambda>a. map (\<lambda>b. a * b) v) u)"


section \<open>Loops over the store\<close>

lemma for_each_append:
  "for_each (xs @ ys) body s =
     (case for_each xs body s of
        (s', None) \<Rightarrow> for_each ys body s'
      | (s', Some e) \<Rightarrow> (s', Some e))"
  by (induction xs arbitrary: s) (auto split: prod.splits option.splits)

lemma for_each_snoc:
  "for_each [0..<Suc n] body s =
     (case for_each [0..<n] body s of
        (s', None) \<Rightarrow> body n s'
      | (s', Some e) \<Rightarrow> (s', Some e))"
  by (simp add: for_each_append split: prod.splits option.splits)

lemma set_slice_simps [simp]:
  "fits (set_slice h a xs) = fits h"
  "arrs (set_slice h a xs) = (arrs h)[a := xs]"
  by (simp_all add: set_slice_def)

lemma set_slice_twice [simp]:
  "set_slice (set_slice h a xs) a ys = set_slice h a ys"
  by (simp add: set_slice_def)

lemma load_in_range:
  "a < length (arrs h) \<Longrightarrow> k < length (arrs h ! a) \<Longrightarrow> load h a k = Some (arrs h ! a ! k)"
  by (simp add: load_def slice_at_def)

lemma store_as_set_slice:
  "store h a k v = set_slice h a ((arrs h ! a)[k := v])"
  by (simp add: store_def set_slice_def)

lemma add_to_in_range:
  "a < length (arrs h) \<Longrightarrow> k < length (arrs h ! a) \<Longrightarrow>
   add_to a k v h = (set_slice h a ((arrs h ! a)[k := arrs h ! a ! k + v]), None)"
  by (simp add: add_to_def load_in_range store_as_set_slice)

lemma add_from_in_range:
  "a < length (arrs h) \<Longrightarrow> b < length (arrs h) \<Longrightarrow>
   k < length (arrs h ! a) \<Longrightarrow> k < length (arrs h ! b) \<Longrightarrow>
   add_from a b k h = (set_slice h a ((arrs h ! a)[k := arrs h ! a ! k + arrs h ! b ! k]), None)"
  by (simp add: add_from_def load_in_range add_to_in_range)

lemma assign_in_range:
  "a < length (arrs h) \<Longrightarrow> k < length (arrs h ! a) \<Longrightarrow>
   assign a k v h = (set_slice h a ((arrs h ! a)[k := v]), None)"
  by (simp add: assign_def load_in_range store_as_set_slice)

lemma map_upd_step:
  assumes "c < L" "\<And>k. k < L \<Longrightarrow> k \<noteq> c \<Longrightarrow> g' k = g k" "g' c = v"
  shows "(map g [0..<L])[c := v] = map g' [0..<L]"
  using assms by (auto intro!: nth_equalityI simp: nth_list_update)

lemma map_unchanged:
  "(\<And>k. k < length xs \<Longrightarrow> g k = xs ! k) \<Longrightarrow> map g [0..<length xs] = xs"
  by (auto intro: nth_equalityI)

lemma add_to_cells:
  assumes "a < length (arrs h)" "c0 + n \<le> length (arrs h ! a)"
  shows "for_each [0..<n] (\<lambda>j. add_to a (c0 + j) (w j)) h =
           (set_slice h a (map (\<lambda>k. if c0 \<le> k \<and> k < c0 + n
                                     then arrs h ! a ! k + w (k - c0) else arrs h ! a ! k)
                               [0..<length (arrs h ! a)]), None)"
  using assms
proof (induction n)
  case 0
  have "map (\<lambda>k. if c0 \<le> k \<and> k < c0 + 0 then arrs h ! a ! k + w (k - c0) else arrs h ! a ! k)
          [0..<length (arrs h ! a)] = arrs h ! a"
    by (rule map_unchanged) auto
  then show ?case by (simp add: set_slice_def)
next
  case (Suc n)
  let ?L = "length (arrs h ! a)"
  let ?g = "\<lambda>n k. if c0 \<le> k \<and> k < c0 + n then arrs h ! a ! k + w (k - c0) else arrs h ! a ! k"
  have IH: "for_each [0..<n] (\<lambda>j. add_to a (c0 + j) (w j)) h = (set_slice h a (map (?g n) [0..<?L]), None)"
    using Suc by simp
  have c: "c0 + n < ?L" using Suc.prems by simp
  have step: "add_to a (c0 + n) (w n) (set_slice h a (map (?g n) [0..<?L]))
      = (set_slice h a ((map (?g n) [0..<?L])[c0 + n := arrs h ! a ! (c0 + n) + w n]), None)"
    using Suc.prems c by (simp add: add_to_in_range)
  have "(map (?g n) [0..<?L])[c0 + n := arrs h ! a ! (c0 + n) + w n] = map (?g (Suc n)) [0..<?L]"
    by (rule map_upd_step[OF c]) auto
  with IH step show ?case by (simp add: for_each_snoc del: upt_Suc)
qed

lemma add_from_cells:
  assumes "a < length (arrs h)" "b < length (arrs h)"
    "c0 + n \<le> length (arrs h ! a)" "c0 + n \<le> length (arrs h ! b)"
  shows "for_each [0..<n] (\<lambda>j. add_from a b (c0 + j)) h =
           (set_slice h a (map (\<lambda>k. if c0 \<le> k \<and> k < c0 + n
                                     then arrs h ! a ! k + arrs h ! b ! k else arrs h ! a ! k)
                               [0..<length (arrs h ! a)]), None)"
  using assms
proof (induction n)
  case 0
  have "map (\<lambda>k. if c0 \<le> k \<and> k < c0 + 0 then arrs h ! a ! k + arrs h ! b ! k else arrs h ! a ! k)
          [0..<length (arrs h ! a)] = arrs h ! a"
    by (rule map_unchanged) auto
  then show ?case by (simp add: set_slice_def)
next
  case (Suc n)
  let ?L = "length (arrs h ! a)"
  let ?g = "\<lambda>n k. if c0 \<le> k \<and> k < c0 + n then arrs h ! a ! k + arrs h ! b ! k else arrs h ! a ! k"
  let ?h1 = "set_slice h a (map (?g n) [0..<?L])"
  have IH: "for_each [0..<n] (\<lambda>j. add_from a b (c0 + j)) h = (?h1, None)"
    using Suc by simp
  have c: "c0 + n < ?L" "c0 + n < length (arrs h ! b)" using Suc.prems by simp_all
  have rd: "arrs ?h1 ! b ! (c0 + n) = arrs h ! b ! (c0 + n)"
    using Suc.prems c by (cases "b = a") simp_all
  have lb: "c0 + n < length (arrs ?h1 ! b)"
    using Suc.prems c by (cases "b = a") simp_all
  have step: "add_from a b (c0 + n) ?h1
      = (set_slice h a ((map (?g n) [0..<?L])[c0 + n := arrs h ! a ! (c0 + n) + arrs h ! b ! (c0 + n)]), None)"
    using Suc.prems c rd lb by (simp add: add_from_in_range)
  have "(map (?g n) [0..<?L])[c0 + n := arrs h ! a ! (c0 + n) + arrs h ! b ! (c0 + n)] = map (?g (Suc n)) [0..<?L]"
    by (rule map_upd_step[OF c(1)]) auto
  with IH step show ?case by (simp add: for_each_snoc del: upt_Suc)
qed


lemma div_mod_block:
  fixes k r m :: nat
  assumes "r * m \<le> k" "k < r * m + m"
  shows "k div m = r" "k mod m = k - r * m"
proof -
  have m: "0 < m" using assms by (cases m) auto
  obtain j where j: "k = r * m + j" "j < m"
    using assms by (metis add_diff_inverse_nat less_diff_conv2 nat_add_left_cancel_less not_le)
  show "k div m = r" using j m by simp
  show "k mod m = k - r * m" using j m by simp
qed

lemma add_to_rows:
  assumes "a < length (arrs h)" "r \<le> m" "length (arrs h ! a) = m * m"
  shows "for_each [0..<r] (\<lambda>i. for_each [0..<m] (\<lambda>j. add_to a (i * m + j) (w i j))) h =
           (set_slice h a (map (\<lambda>k. if k < r * m
                                     then arrs h ! a ! k + w (k div m) (k mod m)
                                     else arrs h ! a ! k)
                               [0..<m * m]), None)"
  using assms
proof (induction r)
  case 0
  have "map (\<lambda>k. if k < 0 * m then arrs h ! a ! k + w (k div m) (k mod m) else arrs h ! a ! k)
          [0..<length (arrs h ! a)] = arrs h ! a"
    by (rule map_unchanged) auto
  then show ?case using "0.prems" by (simp add: set_slice_def)
next
  case (Suc r)
  let ?g = "\<lambda>r k. if k < r * m then arrs h ! a ! k + w (k div m) (k mod m) else arrs h ! a ! k"
  let ?h1 = "set_slice h a (map (?g r) [0..<m * m])"
  have IH: "for_each [0..<r] (\<lambda>i. for_each [0..<m] (\<lambda>j. add_to a (i * m + j) (w i j))) h = (?h1, None)"
    using Suc by simp
  have rm: "r * m + m \<le> m * m"
    using Suc.prems(2) by (metis Suc_leD Suc_le_mono mult_le_mono1 mult_Suc add.commute)
  have a1: "a < length (arrs ?h1)" and l1: "arrs ?h1 ! a = map (?g r) [0..<m * m]"
    using Suc.prems by simp_all
  have inner: "for_each [0..<m] (\<lambda>j. add_to a (r * m + j) (w r j)) ?h1 =
      (set_slice ?h1 a (map (\<lambda>k. if r * m \<le> k \<and> k < r * m + m
                                  then arrs ?h1 ! a ! k + w r (k - r * m) else arrs ?h1 ! a ! k)
                            [0..<length (arrs ?h1 ! a)]), None)"
    by (rule add_to_cells) (use a1 l1 rm in simp_all)
  have eq: "map (\<lambda>k. if r * m \<le> k \<and> k < r * m + m
                   then arrs ?h1 ! a ! k + w r (k - r * m) else arrs ?h1 ! a ! k)
                [0..<length (arrs ?h1 ! a)] = map (?g (Suc r)) [0..<m * m]"
    unfolding l1 using rm
    by (auto intro!: nth_equalityI simp: div_mod_block)
  show ?case
    using IH inner unfolding eq by (simp add: for_each_snoc del: upt_Suc)
qed

lemma xpows_from_length [simp]: "length (xpows_from n v x) = n"
  by (induction n arbitrary: v) simp_all

lemma xpows_length [simp]: "length (xpows m x) = m"
  by (simp add: xpows_def)



lemma fit_okD:
  assumes "fit_ok h f"
  shows "f < length (fits h)" "0 \<le> N (fits h ! f)" "0 \<le> Degree (fits h ! f)"
    "xtx (fits h ! f) < length (arrs h)" "xty (fits h ! f) < length (arrs h)"
    "xtx (fits h ! f) \<noteq> xty (fits h ! f)"
    "length (arrs h ! xtx (fits h ! f)) = nat (Degree (fits h ! f) + 1) * nat (Degree (fits h ! f) + 1)"
    "length (arrs h ! xty (fits h ! f)) = nat (Degree (fits h ! f) + 1)"
  using assms by (simp_all add: fit_ok_def Let_def)

lemma Add_eq:
  assumes ok: "fit_ok h f"
  shows "Add h f x y =
    (set_N
      (set_slice
        (set_slice h (xtx (fits h ! f))
          (map (\<lambda>k. arrs h ! xtx (fits h ! f) ! k
                     + xpows (nat (Degree (fits h ! f) + 1)) x ! (k div nat (Degree (fits h ! f) + 1))
                       * xpows (nat (Degree (fits h ! f) + 1)) x ! (k mod nat (Degree (fits h ! f) + 1)))
               [0..<nat (Degree (fits h ! f) + 1) * nat (Degree (fits h ! f) + 1)]))
        (xty (fits h ! f))
        (map (\<lambda>k. arrs h ! xty (fits h ! f) ! k + xpows (nat (Degree (fits h ! f) + 1)) x ! k * y)
             [0..<nat (Degree (fits h ! f) + 1)]))
      f (N (fits h ! f) + 1), None)"
proof -
  let ?F = "fits h ! f"
  let ?m = "nat (Degree ?F + 1)"
  let ?xp = "xpows ?m x"
  note d = fit_okD[OF ok]
  let ?X = "map (\<lambda>k. arrs h ! xtx ?F ! k + ?xp ! (k div ?m) * ?xp ! (k mod ?m)) [0..<?m * ?m]"
  let ?h1 = "set_slice h (xtx ?F) ?X"
  have l1: "for_each [0..<?m] (\<lambda>i. for_each [0..<?m] (\<lambda>j.
              add_to (xtx ?F) (i * ?m + j) (?xp ! i * ?xp ! j))) h
            = (set_slice h (xtx ?F) (map (\<lambda>k. if k < ?m * ?m
                   then arrs h ! xtx ?F ! k + ?xp ! (k div ?m) * ?xp ! (k mod ?m)
                   else arrs h ! xtx ?F ! k) [0..<?m * ?m]), None)"
    by (rule add_to_rows) (use d in simp_all)
  have e1: "map (\<lambda>k. if k < ?m * ?m
                   then arrs h ! xtx ?F ! k + ?xp ! (k div ?m) * ?xp ! (k mod ?m)
                   else arrs h ! xtx ?F ! k) [0..<?m * ?m] = ?X"
    by (rule map_cong) simp_all
  have y1: "xty ?F < length (arrs ?h1)" "arrs ?h1 ! xty ?F = arrs h ! xty ?F"
    using d by simp_all
  have l2: "for_each [0..<?m] (\<lambda>i. add_to (xty ?F) (0 + i) (?xp ! i * y)) ?h1
            = (set_slice ?h1 (xty ?F) (map (\<lambda>k. if 0 \<le> k \<and> k < 0 + ?m
                   then arrs ?h1 ! xty ?F ! k + ?xp ! (k - 0) * y
                   else arrs ?h1 ! xty ?F ! k) [0..<length (arrs ?h1 ! xty ?F)]), None)"
    by (rule add_to_cells) (use y1 d in simp_all)
  have e2: "map (\<lambda>k. if 0 \<le> k \<and> k < 0 + ?m
                   then arrs ?h1 ! xty ?F ! k + ?xp ! (k - 0) * y
                   else arrs ?h1 ! xty ?F ! k) [0..<length (arrs ?h1 ! xty ?F)]
            = map (\<lambda>k. arrs h ! xty ?F ! k + ?xp ! k * y) [0..<?m]"
    unfolding y1 using d by (intro map_cong) simp_all
  have m0: "\<not> Degree ?F + 1 < 0" using d by simp
  show ?thesis
    using l1 l2 m0 d(1) unfolding e1 e2
    by (simp add: Add_def fit_at_def Let_def)
qed


lemma merge_rows:
  assumes v: "ya < length (arrs h)" "xa < length (arrs h)" "yb < length (arrs h)" "xb < length (arrs h)"
    and sep: "xa \<noteq> ya" "yb \<noteq> xa" "xb \<noteq> ya"
    and len: "length (arrs h ! ya) = m" "length (arrs h ! yb) = m"
             "length (arrs h ! xa) = m * m" "length (arrs h ! xb) = m * m"
    and r: "r \<le> m"
  shows "for_each [0..<r] (\<lambda>i s.
            (case add_from ya yb i s of
               (s', Some e) \<Rightarrow> (s', Some e)
             | (s', None) \<Rightarrow> for_each [0..<m] (\<lambda>j. add_from xa xb (i * m + j)) s')) h
         = (set_slice
              (set_slice h ya
                 (map (\<lambda>k. if k < r then arrs h ! ya ! k + arrs h ! yb ! k else arrs h ! ya ! k) [0..<m]))
              xa
              (map (\<lambda>k. if k < r * m then arrs h ! xa ! k + arrs h ! xb ! k else arrs h ! xa ! k)
                 [0..<m * m]), None)"
  using r
proof (induction r)
  case 0
  have 1: "map (\<lambda>k. if k < 0 then arrs h ! ya ! k + arrs h ! yb ! k else arrs h ! ya ! k)
            [0..<length (arrs h ! ya)] = arrs h ! ya"
    by (rule map_unchanged) auto
  have 2: "map (\<lambda>k. if k < 0 * m then arrs h ! xa ! k + arrs h ! xb ! k else arrs h ! xa ! k)
            [0..<length (arrs h ! xa)] = arrs h ! xa"
    by (rule map_unchanged) auto
  show ?case using 1 2 len by (simp add: set_slice_def)
next
  case (Suc r)
  let ?Y = "\<lambda>r. map (\<lambda>k. if k < r then arrs h ! ya ! k + arrs h ! yb ! k else arrs h ! ya ! k) [0..<m]"
  let ?X = "\<lambda>r. map (\<lambda>k. if k < r * m then arrs h ! xa ! k + arrs h ! xb ! k else arrs h ! xa ! k) [0..<m * m]"
  let ?hr = "set_slice (set_slice h ya (?Y r)) xa (?X r)"
  let ?body = "\<lambda>i s.
            (case add_from ya yb i s of
               (s', Some e) \<Rightarrow> (s', Some e)
             | (s', None) \<Rightarrow> for_each [0..<m] (\<lambda>j. add_from xa xb (i * m + j)) s')"
  have IH: "for_each [0..<r] ?body h = (?hr, None)"
    using Suc by simp
  have rm: "r < m" "r * m + m \<le> m * m"
    using Suc.prems by (simp, metis Suc_leD Suc_le_mono mult_le_mono1 mult_Suc add.commute)
  have ya_r: "arrs ?hr ! ya = ?Y r" using v sep by simp
  have yb_r: "arrs ?hr ! yb ! r = arrs h ! yb ! r" "length (arrs ?hr ! yb) = m"
    using v sep len rm by (cases "yb = ya"; simp)+
  have s1: "add_from ya yb r ?hr
      = (set_slice ?hr ya ((?Y r)[r := ?Y r ! r + arrs h ! yb ! r]), None)"
    using add_from_in_range[of ya ?hr yb r] v ya_r yb_r rm by simp
  have y_eq: "(?Y r)[r := ?Y r ! r + arrs h ! yb ! r] = ?Y (Suc r)"
    using rm by (auto intro!: nth_equalityI simp: nth_list_update)
  let ?h' = "set_slice ?hr ya (?Y (Suc r))"
  have xa': "arrs ?h' ! xa = ?X r" using v sep by simp
  have xb': "length (arrs ?h' ! xb) = m * m"
    "\<And>k. r * m \<le> k \<Longrightarrow> k < m * m \<Longrightarrow> arrs ?h' ! xb ! k = arrs h ! xb ! k"
    using v sep len by (cases "xb = xa"; simp)+
  have s2: "for_each [0..<m] (\<lambda>j. add_from xa xb (r * m + j)) ?h'
      = (set_slice ?h' xa (map (\<lambda>k. if r * m \<le> k \<and> k < r * m + m
                                  then arrs ?h' ! xa ! k + arrs ?h' ! xb ! k else arrs ?h' ! xa ! k)
                             [0..<length (arrs ?h' ! xa)]), None)"
    by (rule add_from_cells) (use v xa' xb' rm in simp_all)
  have x_eq: "map (\<lambda>k. if r * m \<le> k \<and> k < r * m + m
                     then arrs ?h' ! xa ! k + arrs ?h' ! xb ! k else arrs ?h' ! xa ! k)
                [0..<length (arrs ?h' ! xa)] = ?X (Suc r)"
    unfolding xa' using rm xb'(2)
    by (auto intro!: nth_equalityI)
  have fin: "set_slice ?h' xa (?X (Suc r)) = set_slice (set_slice h ya (?Y (Suc r))) xa (?X (Suc r))"
    using sep by (simp add: set_slice_def list_update_swap)
  have "?body r ?hr = (set_slice (set_slice h ya (?Y (Suc r))) xa (?X (Suc r)), None)"
    using s1 s2 unfolding y_eq x_eq fin by simp
  with IH show ?case by (simp add: for_each_snoc del: upt_Suc)
qed

lemma set_N_simps [simp]:
  "arrs (set_N h f n) = arrs h"
  "length (fits (set_N h f n)) = length (fits h)"
  by (simp_all add: set_N_def)

lemma Merge_eq:
  assumes okf: "fit_ok h f" and okb: "fit_ok h b"
    and deg: "Degree (fits h ! f) = Degree (fits h ! b)"
    and sep: "xty (fits h ! b) \<noteq> xtx (fits h ! f)" "xtx (fits h ! b) \<noteq> xty (fits h ! f)"
  shows "Merge h f b =
    (set_slice
       (set_slice (set_N h f (N (fits h ! f) + N (fits h ! b))) (xty (fits h ! f))
          (map (\<lambda>k. arrs h ! xty (fits h ! f) ! k + arrs h ! xty (fits h ! b) ! k)
               [0..<nat (Degree (fits h ! f) + 1)]))
       (xtx (fits h ! f))
       (map (\<lambda>k. arrs h ! xtx (fits h ! f) ! k + arrs h ! xtx (fits h ! b) ! k)
            [0..<nat (Degree (fits h ! f) + 1) * nat (Degree (fits h ! f) + 1)]), None)"
proof -
  let ?F = "fits h ! f" and ?B = "fits h ! b"
  let ?m = "nat (Degree ?F + 1)"
  let ?h0 = "set_N h f (N ?F + N ?B)"
  note df = fit_okD[OF okf] and db = fit_okD[OF okb]
  have rows: "for_each [0..<?m] (\<lambda>i s.
            (case add_from (xty ?F) (xty ?B) i s of
               (s', Some e) \<Rightarrow> (s', Some e)
             | (s', None) \<Rightarrow> for_each [0..<?m] (\<lambda>j. add_from (xtx ?F) (xtx ?B) (i * ?m + j)) s')) ?h0
         = (set_slice
              (set_slice ?h0 (xty ?F)
                 (map (\<lambda>k. if k < ?m then arrs ?h0 ! xty ?F ! k + arrs ?h0 ! xty ?B ! k
                            else arrs ?h0 ! xty ?F ! k) [0..<?m]))
              (xtx ?F)
              (map (\<lambda>k. if k < ?m * ?m then arrs ?h0 ! xtx ?F ! k + arrs ?h0 ! xtx ?B ! k
                         else arrs ?h0 ! xtx ?F ! k)
                 [0..<?m * ?m]), None)"
    by (rule merge_rows) (use df db deg sep in simp_all)
  have e1: "map (\<lambda>k. if k < ?m then arrs ?h0 ! xty ?F ! k + arrs ?h0 ! xty ?B ! k
                            else arrs ?h0 ! xty ?F ! k) [0..<?m]
            = map (\<lambda>k. arrs h ! xty ?F ! k + arrs h ! xty ?B ! k) [0..<?m]"
    by (rule map_cong) simp_all
  have e2: "map (\<lambda>k. if k < ?m * ?m then arrs ?h0 ! xtx ?F ! k + arrs ?h0 ! xtx ?B ! k
                         else arrs ?h0 ! xtx ?F ! k) [0..<?m * ?m]
            = map (\<lambda>k. arrs h ! xtx ?F ! k + arrs h ! xtx ?B ! k) [0..<?m * ?m]"
    by (rule map_cong) simp_all
  show ?thesis
    using rows df(1) db(1) unfolding e1 e2
    by (simp add: Merge_def fit_at_def Let_def deg[symmetric])
qed


subsection \<open>Consequences of the invariant\<close>

lemma heap_ok_fit: "heap_ok h \<Longrightarrow> f < length (fits h) \<Longrightarrow> fit_ok h f"
  by (simp add: heap_ok_def list_all_iff)

lemma distinct_concat_sep:
  "distinct (concat (map \<phi> xs)) \<Longrightarrow> i < length xs \<Longrightarrow> j < length xs \<Longrightarrow> i \<noteq> j \<Longrightarrow>
   set (\<phi> (xs ! i)) \<inter> set (\<phi> (xs ! j)) = {}"
proof (induction xs arbitrary: i j)
  case Nil
  then show ?case by simp
next
  case (Cons a xs)
  show ?case
  proof (cases i)
    case 0
    then obtain j' where j': "j = Suc j'" "j' < length xs" using Cons.prems by (cases j) auto
    then have "xs ! j' \<in> set xs" by simp
    then show ?thesis using Cons.prems(1) 0 j' by fastforce
  next
    case (Suc i')
    show ?thesis
    proof (cases j)
      case 0
      have "xs ! i' \<in> set xs" using Suc Cons.prems by simp
      then show ?thesis using Cons.prems(1) 0 Suc by fastforce
    next
      case (Suc j')
      then show ?thesis using Cons \<open>i = Suc i'\<close> by simp
    qed
  qed
qed

lemma heap_ok_sep:
  assumes "heap_ok h" "f < length (fits h)" "g < length (fits h)" "f \<noteq> g"
  shows "xtx (fits h ! f) \<noteq> xtx (fits h ! g)" "xtx (fits h ! f) \<noteq> xty (fits h ! g)"
        "xty (fits h ! f) \<noteq> xtx (fits h ! g)" "xty (fits h ! f) \<noteq> xty (fits h ! g)"
proof -
  have "distinct (concat (map (\<lambda>F. [xtx F, xty F]) (fits h)))"
    using assms(1) by (simp add: heap_ok_def)
  from distinct_concat_sep[OF this assms(2,3,4)]
  show "xtx (fits h ! f) \<noteq> xtx (fits h ! g)" "xtx (fits h ! f) \<noteq> xty (fits h ! g)"
        "xty (fits h ! f) \<noteq> xtx (fits h ! g)" "xty (fits h ! f) \<noteq> xty (fits h ! g)"
    by auto
qed

lemma heap_okI:
  assumes "\<And>f. f < length (fits h) \<Longrightarrow> fit_ok h f"
    and "distinct (concat (map (\<lambda>F. [xtx F, xty F]) (fits h)))"
  shows "heap_ok h"
  using assms by (simp add: heap_ok_def list_all_iff)

text \<open>A statement that keeps the shape of the store keeps it well-formed.\<close>

lemma fit_ok_same_shape:
  assumes "fit_ok h g"
    and "length (fits h') = length (fits h)"
    and "Degree (fits h' ! g) = Degree (fits h ! g)" "xtx (fits h' ! g) = xtx (fits h ! g)"
        "xty (fits h' ! g) = xty (fits h ! g)" "0 \<le> N (fits h' ! g)"
    and "length (arrs h') = length (arrs h)"
    and "\<And>a. a < length (arrs h) \<Longrightarrow> length (arrs h' ! a) = length (arrs h ! a)"
  shows "fit_ok h' g"
  using assms by (simp add: fit_ok_def Let_def)

lemma heap_ok_same_shape:
  assumes "heap_ok h"
    and "length (fits h') = length (fits h)"
    and "\<And>g. g < length (fits h) \<Longrightarrow>
           Degree (fits h' ! g) = Degree (fits h ! g) \<and> xtx (fits h' ! g) = xtx (fits h ! g) \<and>
           xty (fits h' ! g) = xty (fits h ! g) \<and> 0 \<le> N (fits h' ! g)"
    and "length (arrs h') = length (arrs h)"
    and "\<And>a. a < length (arrs h) \<Longrightarrow> length (arrs h' ! a) = length (arrs h ! a)"
  shows "heap_ok h'"
proof (rule heap_okI)
  fix g assume "g < length (fits h')"
  then have g: "g < length (fits h)" using assms(2) by simp
  show "fit_ok h' g"
    by (rule fit_ok_same_shape[OF heap_ok_fit[OF assms(1) g]]) (use assms g in simp_all)
next
  have "map (\<lambda>F. [xtx F, xty F]) (fits h') = map (\<lambda>F. [xtx F, xty F]) (fits h)"
    using assms(2,3) by (auto intro!: nth_equalityI)
  then show "distinct (concat (map (\<lambda>F. [xtx F, xty F]) (fits h')))"
    using assms(1) by (simp add: heap_ok_def)
qed

subsection \<open>Effect of Add on the views\<close>

lemma Add_shape:
  assumes ok: "fit_ok h f"
  shows "snd (Add h f x y) = None"
    "fits (fst (Add h f x y)) = (fits h)[f := (fits h ! f)\<lparr>N := N (fits h ! f) + 1\<rparr>]"
    "length (arrs (fst (Add h f x y))) = length (arrs h)"
    "\<And>a. a < length (arrs h) \<Longrightarrow> length (arrs (fst (Add h f x y)) ! a) = length (arrs h ! a)"
    "\<And>a. a \<noteq> xtx (fits h ! f) \<Longrightarrow> a \<noteq> xty (fits h ! f) \<Longrightarrow>
          arrs (fst (Add h f x y)) ! a = arrs h ! a"
proof -
  note d = fit_okD[OF ok]
  show "snd (Add h f x y) = None" by (simp add: Add_eq[OF ok])
  show "fits (fst (Add h f x y)) = (fits h)[f := (fits h ! f)\<lparr>N := N (fits h ! f) + 1\<rparr>]"
    by (simp add: Add_eq[OF ok] set_N_def)
  show "length (arrs (fst (Add h f x y))) = length (arrs h)"
    by (simp add: Add_eq[OF ok])
  show "length (arrs (fst (Add h f x y)) ! a) = length (arrs h ! a)" if "a < length (arrs h)" for a
    using that d by (auto simp: Add_eq[OF ok] nth_list_update)
  show "arrs (fst (Add h f x y)) ! a = arrs h ! a"
    if "a \<noteq> xtx (fits h ! f)" "a \<noteq> xty (fits h ! f)" for a
    using that by (simp add: Add_eq[OF ok])
qed

lemma Add_fit_ok:
  assumes "fit_ok h f" "fit_ok h g"
  shows "fit_ok (fst (Add h f x y)) g"
proof (rule fit_ok_same_shape[OF assms(2)])
  note s = Add_shape[OF assms(1), where x=x and y=y] and d = fit_okD[OF assms(1)] fit_okD[OF assms(2)]
  show "length (fits (fst (Add h f x y))) = length (fits h)" by (simp add: s)
  show "Degree (fits (fst (Add h f x y)) ! g) = Degree (fits h ! g)"
    using d by (simp add: s nth_list_update)
  show "xtx (fits (fst (Add h f x y)) ! g) = xtx (fits h ! g)"
    using d by (simp add: s nth_list_update)
  show "xty (fits (fst (Add h f x y)) ! g) = xty (fits h ! g)"
    using d by (simp add: s nth_list_update)
  show "0 \<le> N (fits (fst (Add h f x y)) ! g)"
    using d by (simp add: s nth_list_update)
  show "length (arrs (fst (Add h f x y))) = length (arrs h)" by (simp add: s)
  show "\<And>a. a < length (arrs h) \<Longrightarrow> length (arrs (fst (Add h f x y)) ! a) = length (arrs h ! a)"
    by (simp add: s)
qed

lemma Add_heap_ok:
  assumes "heap_ok h" "f < length (fits h)"
  shows "heap_ok (fst (Add h f x y))"
proof (rule heap_ok_same_shape[OF assms(1)])
  note ok = heap_ok_fit[OF assms]
  note s = Add_shape[OF ok, where x=x and y=y]
  show "length (fits (fst (Add h f x y))) = length (fits h)" by (simp add: s)
  show "Degree (fits (fst (Add h f x y)) ! g) = Degree (fits h ! g) \<and>
        xtx (fits (fst (Add h f x y)) ! g) = xtx (fits h ! g) \<and>
        xty (fits (fst (Add h f x y)) ! g) = xty (fits h ! g) \<and>
        0 \<le> N (fits (fst (Add h f x y)) ! g)" if "g < length (fits h)" for g
    using fit_okD[OF heap_ok_fit[OF assms(1) that]] fit_okD[OF ok]
    by (simp add: s nth_list_update)
  show "length (arrs (fst (Add h f x y))) = length (arrs h)" by (simp add: s)
  show "\<And>a. a < length (arrs h) \<Longrightarrow> length (arrs (fst (Add h f x y)) ! a) = length (arrs h ! a)"
    by (simp add: s)
qed

lemma Add_frame:
  assumes "heap_ok h" "f < length (fits h)" "g < length (fits h)" "g \<noteq> f"
  shows "view (fst (Add h f x y)) g = view h g"
proof -
  note ok = heap_ok_fit[OF assms(1,2)]
  note s = Add_shape[OF ok, where x=x and y=y]
  note sep = heap_ok_sep[OF assms(1,3,2,4)]
  note dg = fit_okD[OF heap_ok_fit[OF assms(1,3)]]
  show ?thesis
    using assms sep dg by (simp add: view_def slice_at_def s)
qed



subsection \<open>Outer products\<close>

lemma outer_product_length [simp]:
  "length (outer_product u v) = length u * length v"
  by (induction u) (simp_all add: outer_product_def)


lemma powers_length [simp]: "length (powers d x) = Suc d"
  by (simp add: powers_def)



lemma view_simps [simp]:
  "vN (view h f) = N (fits h ! f)"
  "vDegree (view h f) = Degree (fits h ! f)"
  "vxtx (view h f) = slice_at h (xtx (fits h ! f))"
  "vxty (view h f) = slice_at h (xty (fits h ! f))"
  by (simp_all add: view_def)



subsection \<open>Effect of Merge\<close>

lemma Merge_mismatch:
  assumes "f < length (fits h)" "b < length (fits h)" "Degree (fits h ! f) \<noteq> Degree (fits h ! b)"
  shows "Merge h f b = (h, Some (DifferentDegree (Degree (fits h ! f)) (Degree (fits h ! b))))"
  using assms by (simp add: Merge_def fit_at_def)

lemma heap_ok_merge_sep:
  assumes "heap_ok h" "f < length (fits h)" "b < length (fits h)"
  shows "xty (fits h ! b) \<noteq> xtx (fits h ! f)" "xtx (fits h ! b) \<noteq> xty (fits h ! f)"
proof -
  show "xty (fits h ! b) \<noteq> xtx (fits h ! f)"
  proof (cases "b = f")
    case True
    then show ?thesis using fit_okD(6)[OF heap_ok_fit[OF assms(1,2)]] by simp
  next
    case False
    then show ?thesis using heap_ok_sep[OF assms(1,3,2)] by simp
  qed
  show "xtx (fits h ! b) \<noteq> xty (fits h ! f)"
  proof (cases "b = f")
    case True
    then show ?thesis using fit_okD(6)[OF heap_ok_fit[OF assms(1,2)]] by simp
  next
    case False
    then show ?thesis using heap_ok_sep[OF assms(1,3,2)] by simp
  qed
qed

lemma Merge_shape:
  assumes okf: "fit_ok h f" and okb: "fit_ok h b"
    and deg: "Degree (fits h ! f) = Degree (fits h ! b)"
    and sep: "xty (fits h ! b) \<noteq> xtx (fits h ! f)" "xtx (fits h ! b) \<noteq> xty (fits h ! f)"
  shows "snd (Merge h f b) = None"
    "fits (fst (Merge h f b)) = (fits h)[f := (fits h ! f)\<lparr>N := N (fits h ! f) + N (fits h ! b)\<rparr>]"
    "length (arrs (fst (Merge h f b))) = length (arrs h)"
    "\<And>a. a < length (arrs h) \<Longrightarrow> length (arrs (fst (Merge h f b)) ! a) = length (arrs h ! a)"
    "\<And>a. a \<noteq> xtx (fits h ! f) \<Longrightarrow> a \<noteq> xty (fits h ! f) \<Longrightarrow>
          arrs (fst (Merge h f b)) ! a = arrs h ! a"
proof -
  note d = fit_okD[OF okf]
  note eq = Merge_eq[OF okf okb deg sep]
  show "snd (Merge h f b) = None" by (simp add: eq)
  show "fits (fst (Merge h f b)) = (fits h)[f := (fits h ! f)\<lparr>N := N (fits h ! f) + N (fits h ! b)\<rparr>]"
    by (simp add: eq set_N_def)
  show "length (arrs (fst (Merge h f b))) = length (arrs h)"
    by (simp add: eq)
  show "length (arrs (fst (Merge h f b)) ! a) = length (arrs h ! a)" if "a < length (arrs h)" for a
    using that d by (auto simp: eq nth_list_update)
  show "arrs (fst (Merge h f b)) ! a = arrs h ! a"
    if "a \<noteq> xtx (fits h ! f)" "a \<noteq> xty (fits h ! f)" for a
    using that by (simp add: eq)
qed



lemma Merge_frame:
  assumes "heap_ok h" "f < length (fits h)" "b < length (fits h)" "g < length (fits h)" "g \<noteq> f"
  shows "view (fst (Merge h f b)) g = view h g"
proof (cases "Degree (fits h ! f) = Degree (fits h ! b)")
  case False
  then show ?thesis using assms by (simp add: Merge_mismatch)
next
  case True
  note okf = heap_ok_fit[OF assms(1,2)] and okb = heap_ok_fit[OF assms(1,3)]
  note s = Merge_shape[OF okf okb True heap_ok_merge_sep[OF assms(1,2,3)]]
  note sep = heap_ok_sep[OF assms(1,4,2,5)]
  note dg = fit_okD[OF heap_ok_fit[OF assms(1,4)]]
  show ?thesis
    using assms sep dg by (simp add: view_def slice_at_def s)
qed

text \<open>
  \<^bold>\<open>Claim C4.\<close> On a well-formed store \<^verbatim>\<open>f.Merge(b)\<close> panics exactly when the two
  degrees differ; the panic is the degree mismatch and it leaves the whole store,
  hence \<^verbatim>\<open>f\<close>, as it was.
\<close>

theorem Merge_fails_iff_degree_mismatch:
  assumes "heap_ok h" and "f < length (fits h)" and "b < length (fits h)"
  shows "(snd (Merge h f b) \<noteq> None \<longleftrightarrow> vDegree (view h f) \<noteq> vDegree (view h b)) \<and>
         (vDegree (view h f) \<noteq> vDegree (view h b) \<longrightarrow>
            Merge h f b = (h, Some (DifferentDegree (vDegree (view h f)) (vDegree (view h b)))))"
proof (cases "Degree (fits h ! f) = Degree (fits h ! b)")
  case False
  then show ?thesis using assms by (simp add: Merge_mismatch)
next
  case True
  note okf = heap_ok_fit[OF assms(1,2)] and okb = heap_ok_fit[OF assms(1,3)]
  from Merge_shape(1)[OF okf okb True heap_ok_merge_sep[OF assms]] True
  show ?thesis by simp
qed


theorem Merge_fails_iff_degree_mismatch_witness:
  "heap_ok (fst (NewFitting (fst (NewFitting (empty_heap :: int heap) [1, 2] [3, 4] 1)) [1] [2] 0)) \<and>
   (0::nat) < length (fits (fst (NewFitting (fst (NewFitting (empty_heap :: int heap) [1, 2] [3, 4] 1)) [1] [2] 0))) \<and>
   (1::nat) < length (fits (fst (NewFitting (fst (NewFitting (empty_heap :: int heap) [1, 2] [3, 4] 1)) [1] [2] 0))) \<and>
   Merge (fst (NewFitting (fst (NewFitting (empty_heap :: int heap) [1, 2] [3, 4] 1)) [1] [2] 0)) 0 1 =
     (fst (NewFitting (fst (NewFitting (empty_heap :: int heap) [1, 2] [3, 4] 1)) [1] [2] 0),
      Some (DifferentDegree 1 0)) \<and>
   snd (Merge (fst (NewFitting (fst (NewFitting (empty_heap :: int heap) [1, 2] [3, 4] 1)) [1] [2] 0)) 0 0) = None"
proof -
  let ?h = "fst (NewFitting (fst (NewFitting (empty_heap :: int heap) [1, 2] [3, 4] 1)) [1] [2] 0)"
  have e: "?h = \<lparr>fits = [\<lparr>N = 2, Degree = 1, xtx = 0, xty = 1\<rparr>, \<lparr>N = 1, Degree = 0, xtx = 2, xty = 3\<rparr>],
                 arrs = [[2, 3, 3, 5], [7, 11], [1], [2]]\<rparr>"
    by code_simp
  have ok: "heap_ok ?h" and f: "(0::nat) < length (fits ?h)" and b: "(1::nat) < length (fits ?h)"
    unfolding e by (simp_all add: heap_ok_def fit_ok_def)
  have d: "vDegree (view ?h 0) = 1" "vDegree (view ?h 1) = 0"
    unfolding e by (simp_all add: view_def)
  from Merge_fails_iff_degree_mismatch[OF ok f b] d
  have 1: "Merge ?h 0 1 = (?h, Some (DifferentDegree 1 0))" by simp
  from Merge_fails_iff_degree_mismatch[OF ok f f]
  have 2: "snd (Merge ?h 0 0) = None" by simp
  from ok f b 1 2 show ?thesis by simp
qed

subsection \<open>NewFitting\<close>

lemma assign_cells:
  assumes "a < length (arrs h)" "n \<le> length (arrs h ! a)"
  shows "for_each [0..<n] (\<lambda>j. assign a j v) h =
           (set_slice h a (map (\<lambda>k. if k < n then v else arrs h ! a ! k)
                               [0..<length (arrs h ! a)]), None)"
  using assms
proof (induction n)
  case 0
  have "map (\<lambda>k. if k < 0 then v else arrs h ! a ! k) [0..<length (arrs h ! a)] = arrs h ! a"
    by (rule map_unchanged) auto
  then show ?case by (simp add: set_slice_def)
next
  case (Suc n)
  let ?L = "length (arrs h ! a)"
  let ?g = "\<lambda>n k. if k < n then v else arrs h ! a ! k"
  have IH: "for_each [0..<n] (\<lambda>j. assign a j v) h = (set_slice h a (map (?g n) [0..<?L]), None)"
    using Suc by simp
  have c: "n < ?L" using Suc.prems by simp
  have step: "assign a n v (set_slice h a (map (?g n) [0..<?L]))
      = (set_slice h a ((map (?g n) [0..<?L])[n := v]), None)"
    using Suc.prems c by (simp add: assign_in_range)
  have "(map (?g n) [0..<?L])[n := v] = map (?g (Suc n)) [0..<?L]"
    by (rule map_upd_step[OF c]) auto
  with IH step show ?case by (simp add: for_each_snoc del: upt_Suc)
qed

lemma assign_zero_noop:
  assumes "a < length (arrs h)" "arrs h ! a = replicate n v"
  shows "for_each [0..<n] (\<lambda>j. assign a j v) h = (h, None)"
proof -
  have "map (\<lambda>k. if k < n then v else arrs h ! a ! k) [0..<length (arrs h ! a)] = arrs h ! a"
    by (rule map_unchanged) (use assms in auto)
  moreover have "set_slice h a (arrs h ! a) = h" by (simp add: set_slice_def)
  ultimately show ?thesis
    using assign_cells[of a h n v] assms by simp
qed

lemma NewFitting_unfold:
  fixes h :: "'a::{zero,one,plus,times} heap"
  assumes "0 \<le> d"
  shows "NewFitting h xs ys d =
     (case for_each [0..<length xs] (\<lambda>i s.
              if i < length ys then Add s (length (fits h)) (xs ! i) (ys ! i)
              else (s, Some IndexOutOfRange)) (fresh h d) of
        (h6, Some e) \<Rightarrow> (h6, Inl e)
      | (h6, None) \<Rightarrow> (h6, Inr (length (fits h))))"
proof -
  let ?m = "d + 1"
  have mm: "nat (?m * ?m) = nat ?m * nat ?m" using assms by (simp add: nat_mult_distrib)
  let ?h3 = "fresh h d"
  have z1: "for_each [0..<nat ?m * nat ?m] (\<lambda>i. assign (length (arrs h)) i 0) ?h3 = (?h3, None)"
    by (rule assign_zero_noop) (simp_all add: fresh_def nth_append)
  have z2: "for_each [0..<nat ?m] (\<lambda>i. assign (Suc (length (arrs h))) i 0) ?h3 = (?h3, None)"
    by (rule assign_zero_noop) (simp_all add: fresh_def nth_append)
  have al: "h\<lparr>arrs := arrs h @ [replicate (nat ?m * nat ?m) 0, replicate (nat ?m) 0],
              fits := fits h @ [\<lparr>N = 0, Degree = d, xtx = length (arrs h),
                                  xty = Suc (length (arrs h))\<rparr>]\<rparr> = ?h3"
    by (simp add: fresh_def)
  show ?thesis
    using assms
    by (simp add: NewFitting_def Let_def mm alloc_def new_struct_def al z1 z2 cong: if_cong)
qed


lemma for_each_map:
  "for_each (map g is) body s = for_each is (\<lambda>i. body (g i)) s"
  by (induction "is" arbitrary: s) (auto split: prod.splits option.splits)

lemma for_each_cong:
  "(\<And>i s. i \<in> set is \<Longrightarrow> body i s = body' i s) \<Longrightarrow> for_each is body s = for_each is body' s"
  by (induction "is" arbitrary: s) (auto split: prod.splits option.splits)

lemma index_loop_zip:
  assumes "length xs \<le> length ys"
  shows "for_each [0..<length xs] (\<lambda>i s.
              if i < length ys then Add s f (xs ! i) (ys ! i)
              else (s, Some IndexOutOfRange)) h = add_points h f (zip xs ys)"
proof -
  have z: "zip xs ys = map (\<lambda>i. (xs ! i, ys ! i)) [0..<length xs]"
    using assms by (auto intro!: nth_equalityI)
  have "add_points h f (zip xs ys)
      = for_each [0..<length xs] (\<lambda>i s. Add s f (xs ! i) (ys ! i)) h"
    unfolding add_points_def z by (simp add: for_each_map)
  also have "\<dots> = for_each [0..<length xs] (\<lambda>i s.
              if i < length ys then Add s f (xs ! i) (ys ! i)
              else (s, Some IndexOutOfRange)) h"
    by (rule for_each_cong) (use assms in auto)
  finally show ?thesis by simp
qed

lemma add_points_Nil [simp]: "add_points h f [] = (h, None)"
  by (simp add: add_points_def)

lemma add_points_Cons:
  "fit_ok h f \<Longrightarrow> add_points h f ((x, y) # ps) = add_points (fst (Add h f x y)) f ps"
  using Add_shape(1)[of h f x y]
  by (cases "Add h f x y") (simp add: add_points_def)

lemma add_points_ok:
  assumes "fit_ok h f"
  shows "snd (add_points h f ps) = None \<and> fit_ok (fst (add_points h f ps)) f \<and>
         N (fits (fst (add_points h f ps)) ! f) = N (fits h ! f) + int (length ps) \<and>
         Degree (fits (fst (add_points h f ps)) ! f) = Degree (fits h ! f)"
  using assms
proof (induction ps arbitrary: h)
  case Nil
  then show ?case by simp
next
  case (Cons p ps)
  obtain x y where p: "p = (x, y)" by (cases p)
  let ?h1 = "fst (Add h f x y)"
  have ok1: "fit_ok ?h1 f" by (rule Add_fit_ok[OF Cons.prems Cons.prems])
  have n1: "N (fits ?h1 ! f) = N (fits h ! f) + 1" "Degree (fits ?h1 ! f) = Degree (fits h ! f)"
    using fit_okD(1)[OF Cons.prems] by (simp_all add: Add_shape(2)[OF Cons.prems])
  show ?case
    using Cons.IH[OF ok1] n1 by (simp add: p add_points_Cons[OF Cons.prems])
qed

lemma add_points_heap_ok:
  assumes "heap_ok h" "f < length (fits h)"
  shows "heap_ok (fst (add_points h f ps))"
  using assms
proof (induction ps arbitrary: h)
  case Nil
  then show ?case by simp
next
  case (Cons p ps)
  obtain x y where p: "p = (x, y)" by (cases p)
  let ?h1 = "fst (Add h f x y)"
  have ok1: "heap_ok ?h1" by (rule Add_heap_ok[OF Cons.prems])
  have f1: "f < length (fits ?h1)"
    using Cons.prems by (simp add: Add_shape(2)[OF heap_ok_fit[OF Cons.prems]])
  show ?case
    using Cons.IH[OF ok1 f1] by (simp add: p add_points_Cons[OF heap_ok_fit[OF Cons.prems]])
qed

lemma add_points_frame:
  assumes "heap_ok h" "f < length (fits h)" "g < length (fits h)" "g \<noteq> f"
  shows "view (fst (add_points h f ps)) g = view h g"
  using assms
proof (induction ps arbitrary: h)
  case Nil
  then show ?case by simp
next
  case (Cons p ps)
  obtain x y where p: "p = (x, y)" by (cases p)
  let ?h1 = "fst (Add h f x y)"
  have ok1: "heap_ok ?h1" by (rule Add_heap_ok[OF Cons.prems(1,2)])
  have l1: "length (fits ?h1) = length (fits h)"
    by (simp add: Add_shape(2)[OF heap_ok_fit[OF Cons.prems(1,2)]])
  have "view (fst (add_points ?h1 f ps)) g = view ?h1 g"
    by (rule Cons.IH[OF ok1]) (use Cons.prems l1 in simp_all)
  then show ?case
    using Add_frame[OF Cons.prems, of x y]
    by (simp add: p add_points_Cons[OF heap_ok_fit[OF Cons.prems(1,2)]])
qed

subsection \<open>The store after the allocations of NewFitting\<close>

lemma fresh_simps [simp]:
  "length (fits (fresh h d)) = Suc (length (fits h))"
  "length (arrs (fresh h d)) = Suc (Suc (length (arrs h)))"
  "g < length (fits h) \<Longrightarrow> fits (fresh h d) ! g = fits h ! g"
  "fits (fresh h d) ! length (fits h) = \<lparr>N = 0, Degree = d, xtx = length (arrs h), xty = Suc (length (arrs h))\<rparr>"
  "a < length (arrs h) \<Longrightarrow> arrs (fresh h d) ! a = arrs h ! a"
  "arrs (fresh h d) ! length (arrs h) = replicate (nat (d + 1) * nat (d + 1)) 0"
  "arrs (fresh h d) ! Suc (length (arrs h)) = replicate (nat (d + 1)) 0"
  by (simp_all add: fresh_def nth_append)

lemma fresh_fit_ok_old:
  assumes "fit_ok h g"
  shows "fit_ok (fresh h d) g"
  using fit_okD[OF assms] by (simp add: fit_ok_def Let_def)

lemma fresh_fit_ok_new:
  assumes "0 \<le> d"
  shows "fit_ok (fresh h d) (length (fits h))"
  using assms by (simp add: fit_ok_def Let_def)

lemma fresh_heap_ok:
  assumes "heap_ok h" "0 \<le> d"
  shows "heap_ok (fresh h d)"
proof (rule heap_okI)
  fix g assume "g < length (fits (fresh h d))"
  then have "g < length (fits h) \<or> g = length (fits h)" by auto
  then show "fit_ok (fresh h d) g"
    using fresh_fit_ok_old[OF heap_ok_fit[OF assms(1)]] fresh_fit_ok_new[OF assms(2)] by auto
next
  have old: "set (concat (map (\<lambda>F. [xtx F, xty F]) (fits h))) \<subseteq> {..<length (arrs h)}"
  proof
    fix a assume "a \<in> set (concat (map (\<lambda>F. [xtx F, xty F]) (fits h)))"
    then obtain F where F: "F \<in> set (fits h)" "a = xtx F \<or> a = xty F" by auto
    then obtain g where g: "g < length (fits h)" "F = fits h ! g" by (auto simp: in_set_conv_nth)
    from fit_okD(4,5)[OF heap_ok_fit[OF assms(1) g(1)]] F(2) g(2)
    show "a \<in> {..<length (arrs h)}" by auto
  qed
  have "distinct (concat (map (\<lambda>F. [xtx F, xty F]) (fits h)))"
    using assms(1) by (simp add: heap_ok_def)
  then show "distinct (concat (map (\<lambda>F. [xtx F, xty F]) (fits (fresh h d))))"
    using old by (auto simp: fresh_def)
qed

lemma fresh_view_old:
  assumes "fit_ok h g"
  shows "view (fresh h d) g = view h g"
  using fit_okD[OF assms] by (simp add: view_def slice_at_def)


lemma index_loop_short:
  assumes "length ys < length xs" "fit_ok h f"
  shows "snd (for_each [0..<length xs] (\<lambda>i s.
              if i < length ys then Add s f (xs ! i) (ys ! i)
              else (s, Some IndexOutOfRange)) h) = Some IndexOutOfRange"
proof -
  let ?body = "\<lambda>xs i s. if i < length ys then Add s f (xs ! i) (ys ! i) else (s, Some IndexOutOfRange)"
  let ?n = "length ys"
  have split: "[0..<length xs] = [0..<?n] @ ?n # [Suc ?n..<length xs]"
    using assms(1) by (metis less_imp_le_nat upt_add_eq_append upt_conv_Cons le_add_diff_inverse zero_le)
  have "for_each [0..<?n] (?body xs) h = for_each [0..<?n] (?body (take ?n xs)) h"
    by (rule for_each_cong) simp
  also have "\<dots> = for_each [0..<length (take ?n xs)] (?body (take ?n xs)) h"
    using assms(1) by simp
  also have "\<dots> = add_points h f (zip (take ?n xs) ys)"
    by (rule index_loop_zip) simp
  finally have first: "for_each [0..<?n] (?body xs) h = add_points h f (zip (take ?n xs) ys)" .
  obtain h' where h': "add_points h f (zip (take ?n xs) ys) = (h', None)"
    using add_points_ok[OF assms(2), of "zip (take ?n xs) ys"]
    by (cases "add_points h f (zip (take ?n xs) ys)") simp
  show ?thesis
    unfolding split for_each_append first h' by simp
qed

text \<open>
  \<^bold>\<open>Claim C10.\<close> For a degree \<open>\<ge> 0\<close>, \<^verbatim>\<open>NewFitting(xs, ys, degree)\<close> with
  \<open>len(xs) \<le> len(ys)\<close> returns the next free pointer; the store is the one obtained by
  calling \<^verbatim>\<open>Add\<close> on the empty fitter for the pairs \<open>(xs[i], ys[i])\<close>, \<open>i < len(xs)\<close>, in
  order, so \<^verbatim>\<open>N = len(xs)\<close> and the entries of \<open>ys\<close> beyond \<open>len(xs)\<close> do not matter.
  With \<open>len(ys) < len(xs)\<close> the constructor panics with an index out of range.
\<close>

theorem NewFitting_pairs_points:
  fixes h :: "'a::{zero,one,plus,times} heap"
  assumes "0 \<le> degree"
  shows "(length xs \<le> length ys \<longrightarrow>
            add_points (fresh h degree) (length (fits h)) (zip xs ys)
              = (fst (NewFitting h xs ys degree), None) \<and>
            snd (NewFitting h xs ys degree) = Inr (length (fits h)) \<and>
            vN (view (fst (NewFitting h xs ys degree)) (length (fits h))) = int (length xs) \<and>
            NewFitting h xs (take (length xs) ys) degree = NewFitting h xs ys degree) \<and>
         (length ys < length xs \<longrightarrow> snd (NewFitting h xs ys degree) = Inl IndexOutOfRange)"
proof (intro conjI impI)
  let ?f = "length (fits h)"
  note ok = fresh_fit_ok_new[OF assms, of h]
  note unf = NewFitting_unfold[OF assms, of h]
  {
    fix zs :: "'a list" assume le: "length xs \<le> length zs"
    obtain h' where h': "add_points (fresh h degree) ?f (zip xs zs) = (h', None)"
      using add_points_ok[OF ok, of "zip xs zs"]
      by (cases "add_points (fresh h degree) ?f (zip xs zs)") simp
    have "NewFitting h xs zs degree = (h', Inr ?f)"
      unfolding unf index_loop_zip[OF le] h' by simp
    with h' have "add_points (fresh h degree) ?f (zip xs zs) = (fst (NewFitting h xs zs degree), None)"
      "NewFitting h xs zs degree = (fst (add_points (fresh h degree) ?f (zip xs zs)), Inr ?f)"
      by simp_all
  } note main = this
  assume le: "length xs \<le> length ys"
  show "add_points (fresh h degree) ?f (zip xs ys) = (fst (NewFitting h xs ys degree), None)"
    by (rule main(1)[OF le])
  show "snd (NewFitting h xs ys degree) = Inr ?f"
    using main(2)[OF le] by simp
  show "vN (view (fst (NewFitting h xs ys degree)) ?f) = int (length xs)"
    using add_points_ok[OF ok, of "zip xs ys"] le
    by (simp add: main(2)[OF le])
  have "zip xs (take (length xs) ys) = zip xs ys"
    using le by (auto intro!: nth_equalityI)
  then show "NewFitting h xs (take (length xs) ys) degree = NewFitting h xs ys degree"
    using main(2)[of "take (length xs) ys"] main(2)[OF le] le by simp
next
  assume "length ys < length xs"
  then have "snd (for_each [0..<length xs] (\<lambda>i s.
              if i < length ys then Add s (length (fits h)) (xs ! i) (ys ! i)
              else (s, Some IndexOutOfRange)) (fresh h degree)) = Some IndexOutOfRange"
    by (rule index_loop_short[OF _ fresh_fit_ok_new[OF assms]])
  then show "snd (NewFitting h xs ys degree) = Inl IndexOutOfRange"
    unfolding NewFitting_unfold[OF assms]
    by (auto split: prod.splits option.splits)
qed

theorem NewFitting_pairs_points_witness:
  "(0::int) \<le> 1 \<and>
   NewFitting (empty_heap :: int heap) [1, 2] [3, 4, 9] 1 = NewFitting empty_heap [1, 2] [3, 4] 1 \<and>
   vN (view (fst (NewFitting (empty_heap :: int heap) [1, 2] [3, 4, 9] 1)) 0) = 2 \<and>
   snd (NewFitting (empty_heap :: int heap) [1, 2, 5] [3, 4] 1) = Inl IndexOutOfRange"
proof -
  have d: "(0::int) \<le> 1" by simp
  have l1: "length [1, 2 :: int] \<le> length [3, 4, 9 :: int]" by simp
  have l2: "length [3, 4 :: int] < length [1, 2, 5 :: int]" by simp
  have e: "length (fits (empty_heap :: int heap)) = 0" by (simp add: empty_heap_def)
  from NewFitting_pairs_points[OF d, of "[1, 2]" "[3, 4, 9]" empty_heap] l1
  have a: "NewFitting (empty_heap :: int heap) [1, 2] (take (length [1, 2 :: int]) [3, 4, 9]) 1
           = NewFitting empty_heap [1, 2] [3, 4, 9] 1"
    and b: "vN (view (fst (NewFitting (empty_heap :: int heap) [1, 2] [3, 4, 9] 1))
              (length (fits (empty_heap :: int heap)))) = int (length [1, 2 :: int])"
    by blast+
  from NewFitting_pairs_points[OF d, of "[1, 2, 5]" "[3, 4]" empty_heap] l2
  have c: "snd (NewFitting (empty_heap :: int heap) [1, 2, 5] [3, 4] 1) = Inl IndexOutOfRange"
    by blast
  from a b c e show ?thesis by simp
qed

subsection \<open>Sufficient statistics of a list of points\<close>


lemma NewFitting_zip:
  fixes h :: "'a::{zero,one,plus,times} heap"
  assumes "0 \<le> d" "length xs \<le> length ys"
  shows "NewFitting h xs ys d
         = (fst (add_points (fresh h d) (length (fits h)) (zip xs ys)), Inr (length (fits h)))"
proof -
  obtain h' where h': "add_points (fresh h d) (length (fits h)) (zip xs ys) = (h', None)"
    using add_points_ok[OF fresh_fit_ok_new[OF assms(1), of h], of "zip xs ys"]
    by (cases "add_points (fresh h d) (length (fits h)) (zip xs ys)") simp
  show ?thesis
    unfolding NewFitting_unfold[OF assms(1)] index_loop_zip[OF assms(2)] h' by simp
qed






subsection \<open>Copy\<close>

lemma Copy_eq:
  assumes "fit_ok h f"
  shows "Copy h f =
    (\<lparr>fits = fits h @ [\<lparr>N = N (fits h ! f), Degree = Degree (fits h ! f),
                        xtx = length (arrs h), xty = Suc (length (arrs h))\<rparr>],
      arrs = arrs h @ [arrs h ! xtx (fits h ! f), arrs h ! xty (fits h ! f)]\<rparr>,
     Inr (length (fits h)))"
  using fit_okD[OF assms]
  by (simp add: Copy_def fit_at_def alloc_def new_struct_def Let_def set_slice_def slice_at_def
      nth_append list_update_append)

lemma Copy_heap_ok:
  assumes "heap_ok h" "f < length (fits h)"
  shows "heap_ok (fst (Copy h f))"
proof (rule heap_okI)
  note okf = heap_ok_fit[OF assms]
  note d = fit_okD[OF okf]
  let ?h1 = "fst (Copy h f)"
  fix g assume "g < length (fits ?h1)"
  then have "g < length (fits h) \<or> g = length (fits h)" by (auto simp: Copy_eq[OF okf])
  then show "fit_ok ?h1 g"
  proof
    assume g: "g < length (fits h)"
    show ?thesis
      using fit_okD[OF heap_ok_fit[OF assms(1) g]] g
      by (simp add: Copy_eq[OF okf] fit_ok_def Let_def nth_append)
  next
    assume "g = length (fits h)"
    then show ?thesis using d by (simp add: Copy_eq[OF okf] fit_ok_def Let_def nth_append)
  qed
next
  note okf = heap_ok_fit[OF assms]
  have old: "set (concat (map (\<lambda>F. [xtx F, xty F]) (fits h))) \<subseteq> {..<length (arrs h)}"
  proof
    fix a assume "a \<in> set (concat (map (\<lambda>F. [xtx F, xty F]) (fits h)))"
    then obtain F where F: "F \<in> set (fits h)" "a = xtx F \<or> a = xty F" by auto
    then obtain g where g: "g < length (fits h)" "F = fits h ! g" by (auto simp: in_set_conv_nth)
    from fit_okD(4,5)[OF heap_ok_fit[OF assms(1) g(1)]] F(2) g(2)
    show "a \<in> {..<length (arrs h)}" by auto
  qed
  have "distinct (concat (map (\<lambda>F. [xtx F, xty F]) (fits h)))"
    using assms(1) by (simp add: heap_ok_def)
  then show "distinct (concat (map (\<lambda>F. [xtx F, xty F]) (fits (fst (Copy h f)))))"
    using old by (auto simp: Copy_eq[OF okf])
qed

lemma Copy_view_new:
  assumes "fit_ok h f"
  shows "view (fst (Copy h f)) (length (fits h)) = view h f"
  using fit_okD[OF assms]
  by (simp add: Copy_eq[OF assms] view_def slice_at_def nth_append)

lemma Copy_view_old:
  assumes "fit_ok h f" "fit_ok h g"
  shows "view (fst (Copy h f)) g = view h g"
  using fit_okD[OF assms(2)]
  by (simp add: Copy_eq[OF assms(1)] view_def slice_at_def nth_append)

text \<open>
  \<^bold>\<open>Claim C8.\<close> On a well-formed store \<^verbatim>\<open>f.Copy()\<close> returns a new pointer \<open>b\<close> whose
  fitter has the \<^verbatim>\<open>N\<close>, \<^verbatim>\<open>Degree\<close>, \<^verbatim>\<open>xtx\<close> and \<^verbatim>\<open>xty\<close> of \<^verbatim>\<open>f\<close>; no other
  fitter changes. After the copy, \<^verbatim>\<open>Add\<close> or \<^verbatim>\<open>Merge\<close> on \<open>b\<close> leaves what is
  observable of \<^verbatim>\<open>f\<close> unchanged, and \<^verbatim>\<open>Add\<close> or \<^verbatim>\<open>Merge\<close> on \<^verbatim>\<open>f\<close> leaves what is
  observable of \<open>b\<close> unchanged.
\<close>

theorem Copy_independent:
  fixes h :: "'a::{one,plus,times} heap"
  assumes "heap_ok h" and "f < length (fits h)"
  shows "\<exists>h1 b. Copy h f = (h1, Inr b) \<and> b \<noteq> f \<and> b < length (fits h1) \<and> heap_ok h1 \<and>
      view h1 b = view h f \<and>
      (\<forall>g. g < length (fits h) \<longrightarrow> view h1 g = view h g) \<and>
      (\<forall>x y. view (fst (Add h1 b x y)) f = view h f) \<and>
      (\<forall>c. c < length (fits h1) \<longrightarrow> view (fst (Merge h1 b c)) f = view h f) \<and>
      (\<forall>x y. view (fst (Add h1 f x y)) b = view h f) \<and>
      (\<forall>c. c < length (fits h1) \<longrightarrow> view (fst (Merge h1 f c)) b = view h f)"
proof -
  note okf = heap_ok_fit[OF assms]
  let ?h1 = "fst (Copy h f)" and ?b = "length (fits h)"
  have 1: "Copy h f = (?h1, Inr ?b)" by (simp add: Copy_eq[OF okf])
  have bf: "?b \<noteq> f" using assms(2) by simp
  have lb: "?b < length (fits ?h1)" and lf: "f < length (fits ?h1)"
    using assms(2) by (simp_all add: Copy_eq[OF okf])
  note ok1 = Copy_heap_ok[OF assms]
  have vb: "view ?h1 ?b = view h f" by (rule Copy_view_new[OF okf])
  have vo: "\<forall>g. g < length (fits h) \<longrightarrow> view ?h1 g = view h g"
    using Copy_view_old[OF okf heap_ok_fit[OF assms(1)]] by blast
  have vf: "view ?h1 f = view h f" using vo assms(2) by blast
  have a1: "\<forall>x y. view (fst (Add ?h1 ?b x y)) f = view h f"
    using Add_frame[OF ok1 lb lf] bf vf by simp
  have m1: "\<forall>c. c < length (fits ?h1) \<longrightarrow> view (fst (Merge ?h1 ?b c)) f = view h f"
    using Merge_frame[OF ok1 lb _ lf] bf vf by simp
  have a2: "\<forall>x y. view (fst (Add ?h1 f x y)) ?b = view h f"
    using Add_frame[OF ok1 lf lb bf] vb by simp
  have m2: "\<forall>c. c < length (fits ?h1) \<longrightarrow> view (fst (Merge ?h1 f c)) ?b = view h f"
    using Merge_frame[OF ok1 lf _ lb bf] vb by simp
  from 1 bf lb ok1 vb vo a1 m1 a2 m2 show ?thesis
    by (intro exI[of _ ?h1] exI[of _ ?b]) (simp del: view_simps)
qed


theorem Copy_independent_witness:
  "heap_ok (fst (NewFitting (empty_heap :: int heap) [1, 2] [3, 4] 1)) \<and>
   (0::nat) < length (fits (fst (NewFitting (empty_heap :: int heap) [1, 2] [3, 4] 1))) \<and>
   snd (Copy (fst (NewFitting (empty_heap :: int heap) [1, 2] [3, 4] 1)) 0) = Inr 1 \<and>
   view (fst (Copy (fst (NewFitting (empty_heap :: int heap) [1, 2] [3, 4] 1)) 0)) 1
     = view (fst (NewFitting (empty_heap :: int heap) [1, 2] [3, 4] 1)) 0 \<and>
   view (fst (Add (fst (Copy (fst (NewFitting (empty_heap :: int heap) [1, 2] [3, 4] 1)) 0)) 1 3 5)) 0
     = view (fst (NewFitting (empty_heap :: int heap) [1, 2] [3, 4] 1)) 0 \<and>
   view (fst (Add (fst (Copy (fst (NewFitting (empty_heap :: int heap) [1, 2] [3, 4] 1)) 0)) 1 3 5)) 1
     = \<lparr>vN = 3, vDegree = 1, vxtx = [3, 6, 6, 14], vxty = [12, 26]\<rparr> \<and>
   view (fst (Merge (fst (Copy (fst (NewFitting (empty_heap :: int heap) [1, 2] [3, 4] 1)) 0)) 0 1)) 1
     = view (fst (NewFitting (empty_heap :: int heap) [1, 2] [3, 4] 1)) 0"
proof -
  let ?h = "fst (NewFitting (empty_heap :: int heap) [1, 2] [3, 4] 1)"
  have e: "?h = \<lparr>fits = [\<lparr>N = 2, Degree = 1, xtx = 0, xty = 1\<rparr>], arrs = [[2, 3, 3, 5], [7, 11]]\<rparr>"
    by code_simp
  have ok: "heap_ok ?h" and f: "(0::nat) < length (fits ?h)"
    unfolding e by (simp_all add: heap_ok_def fit_ok_def)
  have c: "snd (Copy ?h 0) = Inr 1" by code_simp
  have m: "view (fst (Add (fst (Copy ?h 0)) 1 3 5)) 1
     = \<lparr>vN = 3, vDegree = 1, vxtx = [3, 6, 6, 14], vxty = [12, 26]\<rparr>"
    by code_simp
  from Copy_independent[OF ok f]
  obtain h1 b where h1: "Copy ?h 0 = (h1, Inr b)" "b < length (fits h1)"
    "view h1 b = view ?h 0"
    "\<forall>x y. view (fst (Add h1 b x y)) 0 = view ?h 0"
    "\<forall>c. c < length (fits h1) \<longrightarrow> view (fst (Merge h1 0 c)) b = view ?h 0"
    by blast
  from h1(1) c have b: "b = 1" and hh: "fst (Copy ?h 0) = h1" by simp_all
  from h1(2-5) have "view h1 1 = view ?h 0" "view (fst (Add h1 1 3 5)) 0 = view ?h 0"
    "view (fst (Merge h1 0 1)) 1 = view ?h 0"
    unfolding b by blast+
  with ok f c m show ?thesis unfolding hh by simp
qed

subsection \<open>Cramer's rule in a field\<close>






subsection \<open>The closed forms of Solve\<close>























text \<open>
  \<^bold>\<open>Claim C9\<close> (as amended). For the points \<open>(0,0), (1,15), (2,33), (3,50)\<close> the
  degree-1 fit that \<^verbatim>\<open>NewFitting\<close> and \<^verbatim>\<open>Solve\<close> compute is
  \<open>y = 16.8 x - 0.7\<close>: \<open>\<beta>\<^sub>0 = -14/20\<close> and \<open>\<beta>\<^sub>1 = 336/20\<close>.
\<close>

theorem Solve_tiny_arithmetic:
  "snd (NewFitting (empty_heap :: real heap) [0, 1, 2, 3] [0, 15, 33, 50] 1) = Inr 0 \<and>
   Solve S (fst (NewFitting (empty_heap :: real heap) [0, 1, 2, 3] [0, 15, 33, 50] 1)) 0
     = Inr [Finite (- (7 / 10)), Finite (84 / 5)]"
  by code_simp

text \<open>The line \<open>y = 16 x\<close>, that is \<open>\<beta>\<^sub>0 = 0\<close> and \<open>\<beta>\<^sub>1 = 16\<close>, is not what is returned.\<close>

theorem Solve_tiny_arithmetic_counterexample:
  "Solve (\<lambda>A b. LinPanic) (fst (NewFitting (empty_heap :: real heap) [0, 1, 2, 3] [0, 15, 33, 50] 1)) 0
     \<noteq> Inr [Finite 0, Finite 16]"
  by code_simp

subsection \<open>The general path of Solve\<close>







lemma leading_length [simp]: "length (leading k m v) = k"
  by (simp add: leading_def)






subsection \<open>The invariant is established and kept by the constructors\<close>

lemma empty_heap_ok: "heap_ok empty_heap"
  by (simp add: heap_ok_def empty_heap_def)

lemma NewFitting_heap_ok:
  fixes h :: "'a::{zero,one,plus,times} heap"
  assumes "heap_ok h" "0 \<le> d" "length xs \<le> length ys"
  shows "heap_ok (fst (NewFitting h xs ys d))"
proof -
  have "heap_ok (fst (add_points (fresh h d) (length (fits h)) (zip xs ys)))"
    by (rule add_points_heap_ok[OF fresh_heap_ok[OF assms(1,2)]]) simp
  then show ?thesis by (simp add: NewFitting_zip[OF assms(2,3)])
qed

end
